theory Spec2Isabelle
  imports Main
begin

section \<open>The terminal snake game of \<open>snake.cpp\<close>\<close>

text \<open>
  The program is one \<open>main\<close> function: it seeds a one-cell snake in the middle of a
  20 by 20 field, draws a fruit position from \<open>std::rand\<close>, and then repeats
  draw, poll the keyboard, move, detect collisions, resolve the fruit, sleep, until
  \<open>gameOver\<close> is set. The embedding follows the sections of the loop body.

  What lies outside the program is a parameter of the model:
  \<^item> \<open>std::rand\<close> is the sequence \<open>rnd :: nat \<Rightarrow> nat\<close> of the values it returns
    after \<open>srand\<close> (never negative, hence \<open>nat\<close>); the state counts the calls made;
  \<^item> the keyboard is, for each tick, the answers of \<open>ioctl\<close> and of the two
    \<open>read\<close> calls (\<open>key_poll\<close>);
  \<^item> \<open>std::cout\<close> is the string written so far;
  \<^item> the 100 ms sleep and the raw mode of the terminal have no effect on the game
    state and are left out.
  Coordinates are C++ \<open>int\<close>s. They are modelled by \<open>int\<close>: lemma
  \<open>game_loop_cells_on_grid\<close> shows that every coordinate the game computes lies
  between 0 and 19, so no overflow takes place.
\<close>

subsection \<open>Data\<close>

type_synonym pos = "int \<times> int"

definition width :: int where
  "width = 20"

definition height :: int where
  "height = 20"

record state =
  snake :: "pos list"      \<comment> \<open>head first\<close>
  dir :: int               \<comment> \<open>1=left, 2=right, 3=up, 4=down\<close>
  fruit :: pos
  gameOver :: bool
  nrand :: nat             \<comment> \<open>number of calls of \<open>std::rand\<close> so far\<close>

text \<open>The names of the four direction codes, after the comment at the declaration of \<open>dir\<close>.\<close>

datatype Direction = Left | Right | Up | Down

definition direction_of :: "int \<Rightarrow> Direction option" where
  "direction_of d =
     (if d = 1 then Some Left else if d = 2 then Some Right
      else if d = 3 then Some Up else if d = 4 then Some Down else None)"

text \<open>
  What the operating system answers during one tick: the byte count \<open>FIONREAD\<close>
  reports, the bytes delivered by \<open>read(STDIN_FILENO, &c, 1)\<close> and the bytes delivered
  by \<open>read(STDIN_FILENO, seq, 2)\<close>. A \<open>read\<close> that returns 0 or -1 delivers \<open>[]\<close>.
\<close>

record key_poll =
  bytesWaiting :: int
  read1 :: string
  read2 :: string

definition ESC :: char where
  "ESC = CHR 0x1B"

definition NL :: char where
  "NL = CHR 0x0A"

definition rand_mod :: "(nat \<Rightarrow> nat) \<Rightarrow> nat \<Rightarrow> int \<Rightarrow> int" where
  \<comment> \<open>\<open>std::rand() % m\<close> at the k-th call; both operands are non-negative\<close>
  "rand_mod rnd k m = int (rnd k) mod m"

definition initial :: "(nat \<Rightarrow> nat) \<Rightarrow> state" where
  "initial rnd =
     \<lparr>snake = [(width div 2, height div 2)], dir = 2,
      fruit = (rand_mod rnd 0 width, rand_mod rnd 1 height),
      gameOver = False, nrand = 2\<rparr>"

subsection \<open>Draw the board\<close>

fun snake_cell :: "pos list \<Rightarrow> int \<Rightarrow> int \<Rightarrow> string \<times> bool" where
  \<comment> \<open>the loop over the segments: what it prints, and \<open>printed\<close>\<close>
  "snake_cell [] x y = ([], False)"
| "snake_cell (s # ss) x y =
     (if fst s = x \<and> snd s = y then ([CHR ''O''], True) else snake_cell ss x y)"

definition draw_cell :: "state \<Rightarrow> int \<Rightarrow> int \<Rightarrow> string" where
  "draw_cell s x y =
     (if x = 0 \<or> x = width - 1 \<or> y = 0 \<or> y = height - 1 then [CHR ''#'']
      else if x = fst (fruit s) \<and> y = snd (fruit s) then [CHR ''F'']
      else (case snake_cell (snake s) x y of
              (printed_text, printed) \<Rightarrow>
                printed_text @ (if \<not> printed then [CHR '' ''] else [])))"

function draw_cols :: "state \<Rightarrow> int \<Rightarrow> int \<Rightarrow> string" where
  "draw_cols s y x = (if x < width then draw_cell s x y @ draw_cols s y (x + 1) else [])"
  by pat_completeness auto
termination
  by (relation "measure (\<lambda>(s, y, x). nat (width - x))") auto

function draw_rows :: "state \<Rightarrow> int \<Rightarrow> string" where
  "draw_rows s y =
     (if y < height then draw_cols s y 0 @ [NL] @ draw_rows s (y + 1) else [])"
  by pat_completeness auto
termination
  by (relation "measure (\<lambda>(s, y). nat (height - y))") auto

declare draw_cols.simps [simp del] draw_rows.simps [simp del]

definition clear_screen :: string where
  "clear_screen = ESC # ''[H'' @ ESC # ''[2J''"

definition trailer :: string where
  "trailer = ''Use arrow keys to move. Ctrl+C to quit.'' @ [NL]"

definition draw_board :: "state \<Rightarrow> string" where
  "draw_board s = clear_screen @ draw_rows s 0 @ trailer"

subsection \<open>Handle user input\<close>

definition kbhit :: "key_poll \<Rightarrow> bool" where
  "kbhit p = (bytesWaiting p > 0)"

definition handle_input :: "int \<Rightarrow> key_poll \<Rightarrow> int" where
  "handle_input d p =
     (if kbhit p then
        (case read1 p of
           [] \<Rightarrow> d
         | c # _ \<Rightarrow>
             if c = ESC then
               (case read2 p of
                  [seq0, seq1] \<Rightarrow>
                    if seq0 = CHR ''['' then
                      (if seq1 = CHR ''A'' then 3
                       else if seq1 = CHR ''B'' then 4
                       else if seq1 = CHR ''C'' then 2
                       else if seq1 = CHR ''D'' then 1
                       else d)
                    else d
                | _ \<Rightarrow> d)
             else d)
      else d)"

subsection \<open>Update the snake position, collision detection, fruit\<close>

definition move_head :: "int \<Rightarrow> pos \<Rightarrow> pos" where
  "move_head d h =
     (if d = 1 then (fst h - 1, snd h)
      else if d = 2 then (fst h + 1, snd h)
      else if d = 3 then (fst h, snd h - 1)
      else if d = 4 then (fst h, snd h + 1)
      else h)"

definition hit_wall :: "pos \<Rightarrow> bool" where
  "hit_wall h = (fst h \<le> 0 \<or> fst h \<ge> width - 1 \<or> snd h \<le> 0 \<or> snd h \<ge> height - 1)"

function hit_self :: "pos list \<Rightarrow> pos \<Rightarrow> nat \<Rightarrow> bool \<Rightarrow> bool" where
  \<comment> \<open>the loop \<open>for (i = \<dots>; i < snake.size(); ++i)\<close>, threading \<open>gameOver\<close>\<close>
  "hit_self sn h i go =
     (if i < length sn then hit_self sn h (i + 1) (if sn ! i = h then True else go)
      else go)"
  by pat_completeness auto
termination
  by (relation "measure (\<lambda>(sn, h, i, go). length sn - i)") auto

declare hit_self.simps [simp del]

text \<open>
  One pass through the loop body after the drawing. \<open>snake.front()\<close> of an empty
  vector is undefined behaviour: the result is \<open>None\<close>.
\<close>

definition tick :: "(nat \<Rightarrow> nat) \<Rightarrow> key_poll \<Rightarrow> state \<Rightarrow> state option" where
  "tick rnd p s =
     (case snake s of
        [] \<Rightarrow> None
      | front # _ \<Rightarrow>
          let d = handle_input (dir s) p;
              h = move_head d front;
              sn = h # snake s;
              go_wall = (if hit_wall h then True else gameOver s);
              go = hit_self sn h 1 go_wall
          in if h = fruit s then
               Some (s\<lparr>snake := sn, dir := d,
                       fruit := (rand_mod rnd (nrand s) width, rand_mod rnd (nrand s + 1) height),
                       gameOver := go, nrand := nrand s + 2\<rparr>)
             else
               Some (s\<lparr>snake := butlast sn, dir := d, gameOver := go\<rparr>))"

subsection \<open>The loop and the program\<close>

text \<open>
  The loop runs on a list of keyboard answers, one per tick. It stops when
  \<open>gameOver\<close> is set; when the list ends first, the result is the state and the
  output so far, with \<open>gameOver\<close> still false.
\<close>

fun game_loop :: "(nat \<Rightarrow> nat) \<Rightarrow> key_poll list \<Rightarrow> state \<Rightarrow> string \<Rightarrow> (state \<times> string) option" where
  "game_loop rnd [] s out = Some (s, out)"
| "game_loop rnd (p # ps) s out =
     (if gameOver s then Some (s, out)
      else (case tick rnd p s of
              None \<Rightarrow> None
            | Some s' \<Rightarrow> game_loop rnd ps s' (out @ draw_board s)))"

definition game_over_message :: string where
  "game_over_message = ''Game Over!'' @ [NL]"

text \<open>
  The program: its output and exit code, or \<open>None\<close> when the loop has not ended on
  the keyboard answers given (or has run into undefined behaviour).
\<close>

definition main :: "(nat \<Rightarrow> nat) \<Rightarrow> key_poll list \<Rightarrow> (string \<times> int) option" where
  "main rnd ps =
     (case game_loop rnd ps (initial rnd) [] of
        None \<Rightarrow> None
      | Some (s, out) \<Rightarrow> if gameOver s then Some (out @ game_over_message, 0) else None)"

subsection \<open>Notions of the specification\<close>

text \<open>
  The new head of a tick: the front of the snake moved in the direction polled. (For an
  empty snake the tick itself is undefined; the value given here is never used.)
\<close>

definition next_head :: "key_poll \<Rightarrow> state \<Rightarrow> pos" where
  "next_head p s =
     (case snake s of [] \<Rightarrow> (0, 0) | front # _ \<Rightarrow> move_head (handle_input (dir s) p) front)"

text \<open>
  The bytes polled are the escape sequence \<open>ESC [ c\<close>: a key is pending, the first
  read delivers \<open>ESC\<close> and the second delivers the two bytes \<open>[\<close> and \<open>c\<close>.
\<close>

definition escape_sequence :: "key_poll \<Rightarrow> char \<Rightarrow> bool" where
  "escape_sequence p c =
     (bytesWaiting p > 0 \<and> take 1 (read1 p) = [ESC] \<and> read2 p = [CHR ''['', c])"

text \<open>
  The glyph of a cell as the specification words it, chosen by precedence: wall, fruit,
  snake, empty.
\<close>

definition outer_ring :: "int \<Rightarrow> int \<Rightarrow> bool" where
  "outer_ring x y = (x = 0 \<or> x = width - 1 \<or> y = 0 \<or> y = height - 1)"

definition glyph :: "state \<Rightarrow> int \<Rightarrow> int \<Rightarrow> char" where
  "glyph s x y =
     (if outer_ring x y then CHR ''#''
      else if (x, y) = fruit s then CHR ''F''
      else if (x, y) \<in> set (snake s) then CHR ''O''
      else CHR '' '')"

text \<open>The places in a text at which a message starts.\<close>

definition occurs_at :: "string \<Rightarrow> string \<Rightarrow> nat \<Rightarrow> bool" where
  "occurs_at msg txt k = (k + length msg \<le> length txt \<and> take (length msg) (drop k txt) = msg)"

subsection \<open>Inputs used by the examples\<close>

definition rand_seq :: "nat list \<Rightarrow> nat \<Rightarrow> nat" where
  "rand_seq rs k = (if k < length rs then rs ! k else 0)"

definition no_key :: key_poll where
  "no_key = \<lparr>bytesWaiting = 0, read1 = [], read2 = []\<rparr>"

definition arrow_key :: "char \<Rightarrow> key_poll" where
  "arrow_key c = \<lparr>bytesWaiting = 3, read1 = [ESC], read2 = [CHR ''['', c]\<rparr>"

text \<open>Seeds: the first two values place the first fruit, the next two the second.\<close>

definition rnd_fruit_ahead :: "nat \<Rightarrow> nat" where
  "rnd_fruit_ahead = rand_seq [11, 10, 0, 7]"

definition rnd_fruit_corner :: "nat \<Rightarrow> nat" where
  "rnd_fruit_corner = rand_seq [0, 0]"

definition rnd_fruit_in_wall :: "nat \<Rightarrow> nat" where
  "rnd_fruit_in_wall = rand_seq [19, 10, 3, 4]"

text \<open>States met in the examples.\<close>

definition after_first_fruit :: state where
  "after_first_fruit =
     \<lparr>snake = [(11, 10), (10, 10)], dir = 2, fruit = (0, 7), gameOver = False, nrand = 4\<rparr>"

definition after_reversal :: state where
  "after_reversal =
     \<lparr>snake = [(10, 10), (11, 10)], dir = 1, fruit = (0, 7), gameOver = True, nrand = 4\<rparr>"

definition at_right_wall :: state where
  "at_right_wall =
     \<lparr>snake = [(18, 10)], dir = 2, fruit = (0, 0), gameOver = False, nrand = 2\<rparr>"

definition in_right_wall :: state where
  "in_right_wall =
     \<lparr>snake = [(19, 10)], dir = 2, fruit = (0, 0), gameOver = True, nrand = 2\<rparr>"

definition at_column :: "int \<Rightarrow> state" where
  "at_column x =
     \<lparr>snake = [(x, 10)], dir = 2, fruit = (0, 0), gameOver = False, nrand = 2\<rparr>"

definition frames_to_wall :: string where
  "frames_to_wall =
     draw_board (at_column 10) @ draw_board (at_column 11) @ draw_board (at_column 12)
     @ draw_board (at_column 13) @ draw_board (at_column 14) @ draw_board (at_column 15)
     @ draw_board (at_column 16) @ draw_board (at_column 17)"

definition before_fruit_in_wall :: state where
  "before_fruit_in_wall =
     \<lparr>snake = [(18, 10)], dir = 2, fruit = (19, 10), gameOver = False, nrand = 2\<rparr>"

definition after_fruit_in_wall :: state where
  "after_fruit_in_wall =
     \<lparr>snake = [(19, 10), (18, 10)], dir = 2, fruit = (3, 4), gameOver = True, nrand = 4\<rparr>"

section \<open>Properties\<close>

subsection \<open>The loop body as one equation\<close>

lemmas model_defs =
  next_head_def initial_def rand_seq_def rand_mod_def handle_input_def kbhit_def no_key_def
  arrow_key_def move_head_def width_def height_def hit_wall_def ESC_def

lemma hit_self_eq: "hit_self sn h i go = (go \<or> h \<in> set (drop i sn))"
proof (induction sn h i go rule: hit_self.induct)
  case (1 sn h i go)
  show ?case
  proof (cases "i < length sn")
    case True
    then have d: "drop i sn = sn ! i # drop (Suc i) sn"
      by (simp add: Cons_nth_drop_Suc)
    from True 1 show ?thesis
      by (subst hit_self.simps) (auto simp: d)
  next
    case False
    then show ?thesis
      by (subst hit_self.simps) simp
  qed
qed

lemma tick_Some:
  assumes "snake s \<noteq> []"
  shows "tick rnd p s =
     Some (if next_head p s = fruit s
           then s\<lparr>snake := next_head p s # snake s, dir := handle_input (dir s) p,
                  fruit := (rand_mod rnd (nrand s) width, rand_mod rnd (nrand s + 1) height),
                  gameOver := (gameOver s \<or> hit_wall (next_head p s) \<or> next_head p s \<in> set (snake s)),
                  nrand := nrand s + 2\<rparr>
           else s\<lparr>snake := butlast (next_head p s # snake s), dir := handle_input (dir s) p,
                  gameOver := (gameOver s \<or> hit_wall (next_head p s) \<or> next_head p s \<in> set (snake s))\<rparr>)"
  using assms
  by (cases "snake s") (auto simp: tick_def next_head_def Let_def hit_self_eq)

lemma tick_None: "tick rnd p s = None \<longleftrightarrow> snake s = []"
  by (cases "snake s") (auto simp: tick_def Let_def)

lemma later_index_iff: "(\<exists>i. 1 \<le> i \<and> i < length (h # sn) \<and> (h # sn) ! i = h) \<longleftrightarrow> h \<in> set sn"
proof
  assume "\<exists>i. 1 \<le> i \<and> i < length (h # sn) \<and> (h # sn) ! i = h"
  then obtain i where i: "1 \<le> i" "i < length (h # sn)" "(h # sn) ! i = h"
    by blast
  then obtain j where j: "i = Suc j"
    by (cases i) auto
  with i show "h \<in> set sn"
    by (auto simp: in_set_conv_nth)
next
  assume "h \<in> set sn"
  then obtain j where "j < length sn" "sn ! j = h"
    by (auto simp: in_set_conv_nth)
  then have "1 \<le> Suc j \<and> Suc j < length (h # sn) \<and> (h # sn) ! Suc j = h"
    by simp
  then show "\<exists>i. 1 \<le> i \<and> i < length (h # sn) \<and> (h # sn) ! i = h"
    by blast
qed

subsection \<open>Growth and movement\<close>

text \<open>
  Claim C5. On every tick on which the fruit is eaten (the new head equals the fruit
  position) the snake is one element longer after the tick than before it, and its new
  head is at the position the fruit had.
\<close>

theorem growth_on_fruit:
  assumes "snake s \<noteq> []" and "next_head p s = fruit s"
  shows "\<exists>s'. tick rnd p s = Some s' \<and> length (snake s') = length (snake s) + 1
            \<and> hd (snake s') = fruit s"
  using assms by (simp add: tick_Some)

theorem growth_on_fruit_witness:
  "snake (initial rnd_fruit_ahead) \<noteq> []
   \<and> next_head no_key (initial rnd_fruit_ahead) = fruit (initial rnd_fruit_ahead)
   \<and> tick rnd_fruit_ahead no_key (initial rnd_fruit_ahead) = Some after_first_fruit
   \<and> length (snake after_first_fruit) = length (snake (initial rnd_fruit_ahead)) + 1
   \<and> hd (snake after_first_fruit) = fruit (initial rnd_fruit_ahead)"
proof -
  have ne: "snake (initial rnd_fruit_ahead) \<noteq> []"
    by (simp add: initial_def)
  have eat: "next_head no_key (initial rnd_fruit_ahead) = fruit (initial rnd_fruit_ahead)"
    by (simp add: next_head_def initial_def rnd_fruit_ahead_def rand_seq_def rand_mod_def
        handle_input_def kbhit_def no_key_def move_head_def width_def height_def)
  have t: "tick rnd_fruit_ahead no_key (initial rnd_fruit_ahead) = Some after_first_fruit"
    by (simp add: tick_Some [OF ne] eat)
       (simp add: next_head_def initial_def rnd_fruit_ahead_def rand_seq_def rand_mod_def
        handle_input_def kbhit_def no_key_def move_head_def width_def height_def hit_wall_def
        after_first_fruit_def)
  from growth_on_fruit [OF ne eat, of rnd_fruit_ahead] ne eat t show ?thesis
    by simp
qed

text \<open>
  Claim C6. On every tick on which no fruit is eaten (the new head differs from the
  fruit position) the snake is as long after the tick as before it.
\<close>

theorem length_kept_without_fruit:
  assumes "snake s \<noteq> []" and "next_head p s \<noteq> fruit s"
  shows "\<exists>s'. tick rnd p s = Some s' \<and> length (snake s') = length (snake s)"
  using assms by (simp add: tick_Some)

theorem length_kept_without_fruit_witness:
  "snake at_right_wall \<noteq> [] \<and> next_head no_key at_right_wall \<noteq> fruit at_right_wall
   \<and> tick rnd_fruit_corner no_key at_right_wall = Some in_right_wall
   \<and> length (snake in_right_wall) = length (snake at_right_wall)"
proof -
  have ne: "snake at_right_wall \<noteq> []"
    by (simp add: model_defs rnd_fruit_corner_def at_right_wall_def in_right_wall_def)
  have miss: "next_head no_key at_right_wall \<noteq> fruit at_right_wall"
    by (simp add: model_defs rnd_fruit_corner_def at_right_wall_def in_right_wall_def)
  have t: "tick rnd_fruit_corner no_key at_right_wall = Some in_right_wall"
    by (simp add: tick_Some [OF ne] miss)
       (simp add: model_defs rnd_fruit_corner_def at_right_wall_def in_right_wall_def)
  from length_kept_without_fruit [OF ne miss, of rnd_fruit_corner] ne miss t show ?thesis
    by simp
qed

subsection \<open>Collisions\<close>

text \<open>
  Claim C3, amended. On each tick that starts with \<open>gameOver\<close> false, \<open>gameOver\<close>
  becomes true whenever the new head lies on or outside the outer ring
  (\<open>x \<le> 0\<close> or \<open>x \<ge> width - 1\<close> or \<open>y \<le> 0\<close> or \<open>y \<ge> height - 1\<close>); and when it becomes
  true, the new head lies on or outside the ring or equals a position of the snake
  before the move. The wall is a sufficient cause, not the only one.
\<close>

theorem wall_collision:
  assumes "snake s \<noteq> []" and "\<not> gameOver s"
  shows "\<exists>s'. tick rnd p s = Some s'
     \<and> ((fst (next_head p s) \<le> 0 \<or> fst (next_head p s) \<ge> width - 1
          \<or> snd (next_head p s) \<le> 0 \<or> snd (next_head p s) \<ge> height - 1) \<longrightarrow> gameOver s')
     \<and> (gameOver s' \<longrightarrow>
          (fst (next_head p s) \<le> 0 \<or> fst (next_head p s) \<ge> width - 1
           \<or> snd (next_head p s) \<le> 0 \<or> snd (next_head p s) \<ge> height - 1)
          \<or> next_head p s \<in> set (snake s))"
  using assms by (simp add: tick_Some hit_wall_def)

theorem wall_collision_witness:
  "snake at_right_wall \<noteq> [] \<and> \<not> gameOver at_right_wall
   \<and> tick rnd_fruit_corner no_key at_right_wall = Some in_right_wall
   \<and> fst (next_head no_key at_right_wall) \<ge> width - 1
   \<and> gameOver in_right_wall"
proof -
  have ne: "snake at_right_wall \<noteq> []"
    by (simp add: model_defs rnd_fruit_corner_def at_right_wall_def in_right_wall_def)
  have alive: "\<not> gameOver at_right_wall"
    by (simp add: model_defs rnd_fruit_corner_def at_right_wall_def in_right_wall_def)
  have miss: "next_head no_key at_right_wall \<noteq> fruit at_right_wall"
    by (simp add: model_defs rnd_fruit_corner_def at_right_wall_def in_right_wall_def)
  have t: "tick rnd_fruit_corner no_key at_right_wall = Some in_right_wall"
    by (simp add: tick_Some [OF ne] miss)
       (simp add: model_defs rnd_fruit_corner_def at_right_wall_def in_right_wall_def)
  have w: "fst (next_head no_key at_right_wall) \<ge> width - 1"
    by (simp add: model_defs rnd_fruit_corner_def at_right_wall_def in_right_wall_def)
  from wall_collision [OF ne alive, of rnd_fruit_corner no_key] t w ne alive show ?thesis
    by simp
qed

text \<open>
  The claim as written fails after the first fruit: the snake \<open>[(11,10), (10,10)]\<close>
  turned left runs into its own tail at \<open>(10,10)\<close>, well inside the ring.
\<close>

theorem wall_collision_counterexample:
  "map_option fst (game_loop rnd_fruit_ahead [no_key] (initial rnd_fruit_ahead) [])
     = Some after_first_fruit
   \<and> \<not> gameOver after_first_fruit
   \<and> tick rnd_fruit_ahead (arrow_key CHR ''D'') after_first_fruit = Some after_reversal
   \<and> gameOver after_reversal
   \<and> \<not> (fst (next_head (arrow_key CHR ''D'') after_first_fruit) \<le> 0
        \<or> fst (next_head (arrow_key CHR ''D'') after_first_fruit) \<ge> width - 1
        \<or> snd (next_head (arrow_key CHR ''D'') after_first_fruit) \<le> 0
        \<or> snd (next_head (arrow_key CHR ''D'') after_first_fruit) \<ge> height - 1)"
proof -
  have ne0: "snake (initial rnd_fruit_ahead) \<noteq> []"
    by (simp add: model_defs rnd_fruit_ahead_def after_first_fruit_def after_reversal_def)
  have t0: "tick rnd_fruit_ahead no_key (initial rnd_fruit_ahead) = Some after_first_fruit"
    by (simp add: tick_Some [OF ne0])
       (simp add: model_defs rnd_fruit_ahead_def after_first_fruit_def after_reversal_def)
  have g0: "\<not> gameOver (initial rnd_fruit_ahead)"
    by (simp add: model_defs rnd_fruit_ahead_def after_first_fruit_def after_reversal_def)
  have ne1: "snake after_first_fruit \<noteq> []"
    by (simp add: model_defs rnd_fruit_ahead_def after_first_fruit_def after_reversal_def)
  have t1: "tick rnd_fruit_ahead (arrow_key CHR ''D'') after_first_fruit = Some after_reversal"
    by (simp add: tick_Some [OF ne1])
       (simp add: model_defs rnd_fruit_ahead_def after_first_fruit_def after_reversal_def)
  have rest: "\<not> gameOver after_first_fruit" "gameOver after_reversal"
    "next_head (arrow_key CHR ''D'') after_first_fruit = (10, 10)"
    by (simp_all add: model_defs rnd_fruit_ahead_def after_first_fruit_def after_reversal_def)
  from t0 g0 t1 rest show ?thesis
    by (simp add: width_def height_def)
qed

text \<open>
  Claim C4, amended. On each tick that starts with \<open>gameOver\<close> false, \<open>gameOver\<close>
  becomes true whenever the new head equals a position at an index \<open>\<ge> 1\<close> of the snake
  after the new head has been prepended (the tail, still present, included); and when
  it becomes true without such a match, the new head lies on or outside the outer
  ring. Self collision is a sufficient cause, not the only one.
\<close>

theorem self_collision:
  assumes "snake s \<noteq> []" and "\<not> gameOver s"
  shows "\<exists>s'. tick rnd p s = Some s'
     \<and> ((\<exists>i. 1 \<le> i \<and> i < length (next_head p s # snake s)
              \<and> (next_head p s # snake s) ! i = next_head p s) \<longrightarrow> gameOver s')
     \<and> (gameOver s' \<and> \<not> (\<exists>i. 1 \<le> i \<and> i < length (next_head p s # snake s)
              \<and> (next_head p s # snake s) ! i = next_head p s)
          \<longrightarrow> hit_wall (next_head p s))"
proof -
  let ?h = "next_head p s"
  have idx: "(\<exists>i. 1 \<le> i \<and> i < length (?h # snake s) \<and> (?h # snake s) ! i = ?h)
      \<longleftrightarrow> ?h \<in> set (snake s)"
    by (rule later_index_iff)
  from assms obtain s' where s': "tick rnd p s = Some s'"
    and go: "gameOver s' \<longleftrightarrow> hit_wall ?h \<or> ?h \<in> set (snake s)"
    by (simp add: tick_Some)
  from go have "(?h \<in> set (snake s) \<longrightarrow> gameOver s')
      \<and> (gameOver s' \<and> ?h \<notin> set (snake s) \<longrightarrow> hit_wall ?h)"
    by blast
  with s' show ?thesis
    unfolding idx by blast
qed

theorem self_collision_witness:
  "snake after_first_fruit \<noteq> [] \<and> \<not> gameOver after_first_fruit
   \<and> tick rnd_fruit_ahead (arrow_key CHR ''D'') after_first_fruit = Some after_reversal
   \<and> (next_head (arrow_key CHR ''D'') after_first_fruit # snake after_first_fruit) ! 2
       = next_head (arrow_key CHR ''D'') after_first_fruit
   \<and> gameOver after_reversal"
proof -
  have ne: "snake after_first_fruit \<noteq> []"
    by (simp add: model_defs rnd_fruit_ahead_def after_first_fruit_def after_reversal_def)
  have alive: "\<not> gameOver after_first_fruit"
    by (simp add: model_defs rnd_fruit_ahead_def after_first_fruit_def after_reversal_def)
  have t: "tick rnd_fruit_ahead (arrow_key CHR ''D'') after_first_fruit = Some after_reversal"
    by (simp add: tick_Some [OF ne])
       (simp add: model_defs rnd_fruit_ahead_def after_first_fruit_def after_reversal_def)
  have hit: "(next_head (arrow_key CHR ''D'') after_first_fruit # snake after_first_fruit) ! 2
       = next_head (arrow_key CHR ''D'') after_first_fruit"
    by (simp add: model_defs rnd_fruit_ahead_def after_first_fruit_def after_reversal_def)
  from self_collision [OF ne alive, of rnd_fruit_ahead "arrow_key CHR ''D''"] t hit ne alive
  show ?thesis
    by (simp add: model_defs rnd_fruit_ahead_def after_first_fruit_def after_reversal_def)
qed

text \<open>
  The claim as written fails at the wall: the one-cell snake at \<open>(18,10)\<close> moving right
  steps onto \<open>(19,10)\<close>, which no element of index \<open>\<ge> 1\<close> occupies, and the game is over.
\<close>

theorem self_collision_counterexample:
  "map_option fst (game_loop rnd_fruit_corner
       [no_key, no_key, no_key, no_key, no_key, no_key, no_key, no_key]
       (initial rnd_fruit_corner) [])
     = Some at_right_wall
   \<and> \<not> gameOver at_right_wall
   \<and> tick rnd_fruit_corner no_key at_right_wall = Some in_right_wall
   \<and> gameOver in_right_wall
   \<and> next_head no_key at_right_wall
        \<notin> set (drop 1 (next_head no_key at_right_wall # snake at_right_wall))"
proof -
  have run: "map_option fst (game_loop rnd_fruit_corner
       [no_key, no_key, no_key, no_key, no_key, no_key, no_key, no_key]
       (initial rnd_fruit_corner) [])
     = Some at_right_wall"
    by (simp add: tick_def Let_def hit_self_eq model_defs rnd_fruit_corner_def
          at_right_wall_def in_right_wall_def)
  have ne: "snake at_right_wall \<noteq> []"
    by (simp add: model_defs rnd_fruit_corner_def at_right_wall_def in_right_wall_def)
  have t: "tick rnd_fruit_corner no_key at_right_wall = Some in_right_wall"
    by (simp add: tick_Some [OF ne])
       (simp add: model_defs rnd_fruit_corner_def at_right_wall_def in_right_wall_def)
  have rest: "\<not> gameOver at_right_wall" "gameOver in_right_wall"
    "next_head no_key at_right_wall
        \<notin> set (drop 1 (next_head no_key at_right_wall # snake at_right_wall))"
    by (simp_all add: model_defs rnd_fruit_corner_def at_right_wall_def in_right_wall_def)
  from run t rest show ?thesis
    by simp
qed

subsection \<open>The fruit\<close>

text \<open>
  Claim C1, amended. On every tick in which the new head equals the fruit position,
  the replacement fruit position is \<open>(rand() % width, rand() % height)\<close> for the next two
  values of the generator: it lies on the whole grid, \<open>0 \<le> x \<le> width - 1\<close> and
  \<open>0 \<le> y \<le> height - 1\<close>, outer ring included, every cell of the grid (a cell of the
  snake's body as well) being the result for some values of the generator; and the
  snake keeps its new length, the new head prepended and no tail removed.
\<close>

theorem fruit_respawn:
  assumes "snake s \<noteq> []" and "next_head p s = fruit s"
  shows "(\<exists>s'. tick rnd p s = Some s'
            \<and> fruit s' = (int (rnd (nrand s)) mod width, int (rnd (nrand s + 1)) mod height)
            \<and> 0 \<le> fst (fruit s') \<and> fst (fruit s') \<le> width - 1
            \<and> 0 \<le> snd (fruit s') \<and> snd (fruit s') \<le> height - 1
            \<and> snake s' = next_head p s # snake s
            \<and> length (snake s') = length (snake s) + 1)
       \<and> (\<forall>x y. 0 \<le> x \<and> x \<le> width - 1 \<and> 0 \<le> y \<and> y \<le> height - 1 \<longrightarrow>
             (\<exists>rnd' s'. tick rnd' p s = Some s' \<and> fruit s' = (x, y)))"
proof
  show "\<exists>s'. tick rnd p s = Some s'
            \<and> fruit s' = (int (rnd (nrand s)) mod width, int (rnd (nrand s + 1)) mod height)
            \<and> 0 \<le> fst (fruit s') \<and> fst (fruit s') \<le> width - 1
            \<and> 0 \<le> snd (fruit s') \<and> snd (fruit s') \<le> height - 1
            \<and> snake s' = next_head p s # snake s
            \<and> length (snake s') = length (snake s) + 1"
  proof -
    have "int n mod 20 \<le> 19" for n :: nat
    proof -
      have "int n mod 20 < 20"
        by (rule pos_mod_bound) simp
      then show ?thesis
        by linarith
    qed
    with assms show ?thesis
      by (simp add: tick_Some rand_mod_def width_def height_def)
  qed
next
  show "\<forall>x y. 0 \<le> x \<and> x \<le> width - 1 \<and> 0 \<le> y \<and> y \<le> height - 1 \<longrightarrow>
             (\<exists>rnd' s'. tick rnd' p s = Some s' \<and> fruit s' = (x, y))"
  proof (intro allI impI)
    fix x y :: int
    assume xy: "0 \<le> x \<and> x \<le> width - 1 \<and> 0 \<le> y \<and> y \<le> height - 1"
    define rnd' where "rnd' k = (if k = nrand s then nat x else nat y)" for k
    from xy have "rand_mod rnd' (nrand s) width = x" "rand_mod rnd' (nrand s + 1) height = y"
      by (simp_all add: rand_mod_def rnd'_def)
    with assms have "\<exists>s'. tick rnd' p s = Some s' \<and> fruit s' = (x, y)"
      by (simp add: tick_Some)
    then show "\<exists>rnd' s'. tick rnd' p s = Some s' \<and> fruit s' = (x, y)"
      by blast
  qed
qed

theorem fruit_respawn_witness:
  "snake before_fruit_in_wall \<noteq> []
   \<and> next_head no_key before_fruit_in_wall = fruit before_fruit_in_wall
   \<and> tick rnd_fruit_in_wall no_key before_fruit_in_wall = Some after_fruit_in_wall
   \<and> fruit after_fruit_in_wall = (3, 4)
   \<and> length (snake after_fruit_in_wall) = 2"
proof -
  have ne: "snake before_fruit_in_wall \<noteq> []"
    by (simp add: model_defs rnd_fruit_in_wall_def before_fruit_in_wall_def
          after_fruit_in_wall_def)
  have eat: "next_head no_key before_fruit_in_wall = fruit before_fruit_in_wall"
    by (simp add: model_defs rnd_fruit_in_wall_def before_fruit_in_wall_def
          after_fruit_in_wall_def)
  have t: "tick rnd_fruit_in_wall no_key before_fruit_in_wall = Some after_fruit_in_wall"
    by (simp add: tick_Some [OF ne] eat)
       (simp add: model_defs rnd_fruit_in_wall_def before_fruit_in_wall_def
          after_fruit_in_wall_def)
  from fruit_respawn [OF ne eat, of rnd_fruit_in_wall] ne eat t show ?thesis
    by (simp add: model_defs rnd_fruit_in_wall_def before_fruit_in_wall_def
          after_fruit_in_wall_def)
qed

text \<open>
  The claim as written fails at the very first fruit: with the generator returning
  11, 10, 0, 7 the fruit at \<open>(11,10)\<close> is eaten on the first tick and the new one is
  placed at \<open>(0,7)\<close>, in the left wall.
\<close>

theorem fruit_respawn_counterexample:
  "next_head no_key (initial rnd_fruit_ahead) = fruit (initial rnd_fruit_ahead)
   \<and> tick rnd_fruit_ahead no_key (initial rnd_fruit_ahead) = Some after_first_fruit
   \<and> \<not> (1 \<le> fst (fruit after_first_fruit) \<and> fst (fruit after_first_fruit) \<le> width - 2
        \<and> 1 \<le> snd (fruit after_first_fruit) \<and> snd (fruit after_first_fruit) \<le> height - 2)"
proof -
  have ne: "snake (initial rnd_fruit_ahead) \<noteq> []"
    by (simp add: model_defs rnd_fruit_ahead_def after_first_fruit_def)
  have eat: "next_head no_key (initial rnd_fruit_ahead) = fruit (initial rnd_fruit_ahead)"
    by (simp add: model_defs rnd_fruit_ahead_def after_first_fruit_def)
  have t: "tick rnd_fruit_ahead no_key (initial rnd_fruit_ahead) = Some after_first_fruit"
    by (simp add: tick_Some [OF ne] eat)
       (simp add: model_defs rnd_fruit_ahead_def after_first_fruit_def)
  from eat t show ?thesis
    by (simp add: model_defs rnd_fruit_ahead_def after_first_fruit_def)
qed

text \<open>
  Claim C10. On a tick in which \<open>gameOver\<close> becomes true the update is carried out in
  full all the same: the new head stays prepended; if it equals the fruit position the
  snake grows and a new fruit is drawn; otherwise the tail element is removed.
\<close>

theorem update_completes_on_game_over:
  assumes "\<not> gameOver s" and "tick rnd p s = Some s'" and "gameOver s'"
  shows "hd (snake s') = next_head p s
     \<and> (next_head p s = fruit s \<longrightarrow>
          snake s' = next_head p s # snake s
          \<and> fruit s' = (rand_mod rnd (nrand s) width, rand_mod rnd (nrand s + 1) height)
          \<and> nrand s' = nrand s + 2)
     \<and> (next_head p s \<noteq> fruit s \<longrightarrow>
          snake s' = butlast (next_head p s # snake s) \<and> fruit s' = fruit s)"
proof -
  from assms(2) have ne: "snake s \<noteq> []"
    using tick_None [of rnd p s] by auto
  from assms(2) show ?thesis
    by (auto simp: tick_Some [OF ne] ne split: if_splits)
qed

theorem update_completes_on_game_over_witness:
  "\<not> gameOver before_fruit_in_wall
   \<and> tick rnd_fruit_in_wall no_key before_fruit_in_wall = Some after_fruit_in_wall
   \<and> gameOver after_fruit_in_wall
   \<and> next_head no_key before_fruit_in_wall = fruit before_fruit_in_wall
   \<and> snake after_fruit_in_wall = (19, 10) # snake before_fruit_in_wall
   \<and> fruit after_fruit_in_wall = (3, 4)"
proof -
  have ne: "snake before_fruit_in_wall \<noteq> []"
    by (simp add: model_defs rnd_fruit_in_wall_def before_fruit_in_wall_def
          after_fruit_in_wall_def)
  have alive: "\<not> gameOver before_fruit_in_wall"
    by (simp add: model_defs rnd_fruit_in_wall_def before_fruit_in_wall_def
          after_fruit_in_wall_def)
  have eat: "next_head no_key before_fruit_in_wall = fruit before_fruit_in_wall"
    by (simp add: model_defs rnd_fruit_in_wall_def before_fruit_in_wall_def
          after_fruit_in_wall_def)
  have t: "tick rnd_fruit_in_wall no_key before_fruit_in_wall = Some after_fruit_in_wall"
    by (simp add: tick_Some [OF ne] eat)
       (simp add: model_defs rnd_fruit_in_wall_def before_fruit_in_wall_def
          after_fruit_in_wall_def)
  have over: "gameOver after_fruit_in_wall"
    by (simp add: model_defs rnd_fruit_in_wall_def before_fruit_in_wall_def
          after_fruit_in_wall_def)
  from update_completes_on_game_over [OF alive t over] alive t over eat show ?thesis
    by (simp add: model_defs rnd_fruit_in_wall_def before_fruit_in_wall_def
          after_fruit_in_wall_def)
qed

subsection \<open>Invariants of the loop\<close>

lemma tick_snake_nonempty: "tick rnd p s = Some s' \<Longrightarrow> snake s' \<noteq> []"
proof -
  assume t: "tick rnd p s = Some s'"
  then have ne: "snake s \<noteq> []"
    using tick_None [of rnd p s] by auto
  from t show ?thesis
    by (auto simp: tick_Some [OF ne] ne split: if_splits)
qed

lemma game_loop_invariant:
  assumes "I s0"
    and step: "\<And>s p s'. I s \<Longrightarrow> \<not> gameOver s \<Longrightarrow> tick rnd p s = Some s' \<Longrightarrow> I s'"
    and "game_loop rnd ps s0 out0 = Some (s, out)"
  shows "I s"
  using assms(1,3)
proof (induction ps arbitrary: s0 out0)
  case Nil
  then show ?case by simp
next
  case (Cons p ps)
  show ?case
  proof (cases "gameOver s0")
    case True
    with Cons.prems show ?thesis by simp
  next
    case False
    with Cons.prems obtain s1 where t: "tick rnd p s0 = Some s1"
      and rest: "game_loop rnd ps s1 (out0 @ draw_board s0) = Some (s, out)"
      by (auto split: option.splits)
    from step [OF Cons.prems(1) False t] rest show ?thesis
      by (rule Cons.IH)
  qed
qed

lemma game_loop_snake_nonempty:
  assumes "game_loop rnd ps (initial rnd) out0 = Some (s, out)"
  shows "snake s \<noteq> []"
proof (rule game_loop_invariant [where I = "\<lambda>s. snake s \<noteq> []", OF _ _ assms])
  show "snake (initial rnd) \<noteq> []"
    by (simp add: initial_def)
qed (rule tick_snake_nonempty)

lemma game_loop_defined:
  "snake s0 \<noteq> [] \<Longrightarrow> \<exists>s out. game_loop rnd ps s0 out0 = Some (s, out)"
proof (induction ps arbitrary: s0 out0)
  case Nil
  then show ?case by simp
next
  case (Cons p ps)
  from Cons.prems obtain s1 where t: "tick rnd p s0 = Some s1"
    by (simp add: tick_Some)
  then have "snake s1 \<noteq> []"
    by (rule tick_snake_nonempty)
  from Cons.IH [OF this] t show ?case
    by simp
qed

lemma tick_keeps_distinct:
  assumes "distinct (snake s)" and "tick rnd p s = Some s'" and "\<not> gameOver s'"
  shows "distinct (snake s')"
proof -
  from assms(2) have ne: "snake s \<noteq> []"
    using tick_None [of rnd p s] by auto
  from assms(2,3) have fresh: "next_head p s \<notin> set (snake s)"
    by (auto simp: tick_Some [OF ne] split: if_splits)
  with assms(1) have "distinct (next_head p s # snake s)"
    by simp
  then have "distinct (butlast (next_head p s # snake s))"
    by (rule distinct_butlast)
  with assms(1,2) fresh show ?thesis
    by (auto simp: tick_Some [OF ne] simp del: butlast.simps split: if_splits)
qed

text \<open>
  Claim C7. In every state the loop reaches with \<open>gameOver\<close> false (the state at the
  end of any tick the game survives, and the initial state) no two elements of the
  snake are at the same position.
\<close>

theorem alive_snake_distinct:
  assumes "game_loop rnd ps (initial rnd) [] = Some (s, out)" and "\<not> gameOver s"
  shows "distinct (snake s)"
proof -
  have "gameOver s \<or> distinct (snake s)"
  proof (rule game_loop_invariant [where I = "\<lambda>s. gameOver s \<or> distinct (snake s)", OF _ _ assms(1)])
    show "gameOver (initial rnd) \<or> distinct (snake (initial rnd))"
      by (simp add: initial_def)
  next
    fix s p s'
    assume "gameOver s \<or> distinct (snake s)" "\<not> gameOver s" "tick rnd p s = Some s'"
    then show "gameOver s' \<or> distinct (snake s')"
      using tick_keeps_distinct [of s rnd p s'] by blast
  qed
  with assms(2) show ?thesis
    by simp
qed

theorem alive_snake_distinct_witness:
  "game_loop rnd_fruit_ahead [no_key] (initial rnd_fruit_ahead) []
     = Some (after_first_fruit, draw_board (initial rnd_fruit_ahead))
   \<and> \<not> gameOver after_first_fruit
   \<and> distinct (snake after_first_fruit)"
proof -
  have ne0: "snake (initial rnd_fruit_ahead) \<noteq> []"
    by (simp add: model_defs rnd_fruit_ahead_def after_first_fruit_def)
  have t0: "tick rnd_fruit_ahead no_key (initial rnd_fruit_ahead) = Some after_first_fruit"
    by (simp add: tick_Some [OF ne0])
       (simp add: model_defs rnd_fruit_ahead_def after_first_fruit_def)
  have g0: "\<not> gameOver (initial rnd_fruit_ahead)"
    by (simp add: model_defs rnd_fruit_ahead_def after_first_fruit_def)
  have run: "game_loop rnd_fruit_ahead [no_key] (initial rnd_fruit_ahead) []
     = Some (after_first_fruit, draw_board (initial rnd_fruit_ahead))"
    using t0 g0 by simp
  have alive: "\<not> gameOver after_first_fruit"
    by (simp add: model_defs rnd_fruit_ahead_def after_first_fruit_def)
  from alive_snake_distinct [OF run alive] run alive show ?thesis
    by simp
qed

lemma tick_cells:
  assumes "tick rnd p s = Some s'"
  shows "set (snake s') \<subseteq> insert (next_head p s) (set (snake s))"
proof -
  from assms have ne: "snake s \<noteq> []"
    using tick_None [of rnd p s] by auto
  from assms show ?thesis
    by (auto simp: tick_Some [OF ne] ne split: if_splits dest: in_set_butlastD)
qed

lemma move_head_near:
  "\<bar>fst (move_head d h) - fst h\<bar> \<le> 1 \<and> \<bar>snd (move_head d h) - snd h\<bar> \<le> 1"
  by (simp add: move_head_def)

lemma game_loop_cells_on_grid:
  assumes "game_loop rnd ps (initial rnd) out0 = Some (s, out)" and "c \<in> set (snake s)"
  shows "0 \<le> fst c \<and> fst c \<le> width - 1 \<and> 0 \<le> snd c \<and> snd c \<le> height - 1"
proof -
  let ?on = "\<lambda>c :: pos. 0 \<le> fst c \<and> fst c \<le> width - 1 \<and> 0 \<le> snd c \<and> snd c \<le> height - 1"
  let ?I = "\<lambda>s. snake s \<noteq> [] \<and> (\<forall>c \<in> set (snake s). ?on c)
              \<and> (\<not> gameOver s \<longrightarrow> (\<forall>c \<in> set (snake s). \<not> hit_wall c))"
  have "?I s"
  proof (rule game_loop_invariant [where I = ?I, OF _ _ assms(1)])
    show "?I (initial rnd)"
      by (simp add: initial_def width_def height_def hit_wall_def)
  next
    fix s p s'
    assume inv: "?I s" and alive: "\<not> gameOver s" and t: "tick rnd p s = Some s'"
    from inv have ne: "snake s \<noteq> []"
      by simp
    then have front: "hd (snake s) \<in> set (snake s)"
      by simp
    with inv alive have inside: "\<not> hit_wall (hd (snake s))"
      by blast
    from ne have h: "next_head p s = move_head (handle_input (dir s) p) (hd (snake s))"
      by (cases "snake s") (simp_all add: next_head_def)
    from inside move_head_near [of "handle_input (dir s) p" "hd (snake s)"]
    have on_h: "?on (next_head p s)"
      unfolding h hit_wall_def by linarith
    from t alive have over: "gameOver s' \<longleftrightarrow> hit_wall (next_head p s) \<or> next_head p s \<in> set (snake s)"
      by (auto simp: tick_Some [OF ne] split: if_splits)
    have sub: "set (snake s') \<subseteq> insert (next_head p s) (set (snake s))"
      using t by (rule tick_cells)
    have "\<forall>c \<in> set (snake s'). ?on c"
      using sub on_h inv by blast
    moreover have "\<not> gameOver s' \<longrightarrow> (\<forall>c \<in> set (snake s'). \<not> hit_wall c)"
      using sub over inv alive by blast
    moreover have "snake s' \<noteq> []"
      using t by (rule tick_snake_nonempty)
    ultimately show "?I s'"
      by blast
  qed
  with assms(2) show ?thesis
    by blast
qed

subsection \<open>The keyboard\<close>

text \<open>
  Claim C8. When a pending key is polled, the escape sequence \<open>ESC [ c\<close> with \<open>c\<close> one of
  A, B, C, D sets the direction to Up, Down, Right, Left respectively; any other input
  leaves the direction as it was; and so does the absence of input.
\<close>

theorem arrow_keys_set_direction:
  "(escape_sequence p CHR ''A'' \<longrightarrow> direction_of (handle_input d p) = Some Up)
   \<and> (escape_sequence p CHR ''B'' \<longrightarrow> direction_of (handle_input d p) = Some Down)
   \<and> (escape_sequence p CHR ''C'' \<longrightarrow> direction_of (handle_input d p) = Some Right)
   \<and> (escape_sequence p CHR ''D'' \<longrightarrow> direction_of (handle_input d p) = Some Left)
   \<and> (\<not> (escape_sequence p CHR ''A'' \<or> escape_sequence p CHR ''B''
          \<or> escape_sequence p CHR ''C'' \<or> escape_sequence p CHR ''D'')
        \<longrightarrow> handle_input d p = d)
   \<and> (\<not> kbhit p \<longrightarrow> handle_input d p = d)"
  by (cases "read1 p"; cases "read2 p" rule: list.exhaust)
     (auto simp: handle_input_def escape_sequence_def kbhit_def direction_of_def
           split: list.splits)

theorem arrow_keys_set_direction_witness:
  "escape_sequence (arrow_key CHR ''A'') CHR ''A''
   \<and> direction_of (handle_input 2 (arrow_key CHR ''A'')) = Some Up
   \<and> handle_input 2 (arrow_key CHR ''A'') = 3
   \<and> \<not> kbhit no_key \<and> handle_input 2 no_key = 2"
proof -
  have seq: "escape_sequence (arrow_key CHR ''A'') CHR ''A''"
    by (simp add: escape_sequence_def arrow_key_def)
  have quiet: "\<not> kbhit no_key"
    by (simp add: kbhit_def no_key_def)
  from arrow_keys_set_direction [of "arrow_key CHR ''A''" 2] seq
  have up: "direction_of (handle_input 2 (arrow_key CHR ''A'')) = Some Up"
    by blast
  then have "handle_input 2 (arrow_key CHR ''A'') = 3"
    by (simp add: direction_of_def split: if_splits)
  moreover from arrow_keys_set_direction [of no_key 2] quiet have "handle_input 2 no_key = 2"
    by blast
  ultimately show ?thesis
    using seq quiet up by simp
qed

subsection \<open>The frame\<close>

lemma snake_cell_eq:
  "snake_cell sn x y = (if (x, y) \<in> set sn then ([CHR ''O''], True) else ([], False))"
  by (induction sn) auto

lemma draw_cell_glyph: "draw_cell s x y = [glyph s x y]"
  by (cases "fruit s") (auto simp: draw_cell_def glyph_def outer_ring_def snake_cell_eq)

lemma draw_cols_eq: "draw_cols s y x = map (\<lambda>x. glyph s x y) [x..width - 1]"
proof (induction s y x rule: draw_cols.induct)
  case (1 s y x)
  show ?case
  proof (cases "x < width")
    case True
    then have "[x..width - 1] = x # [x + 1..width - 1]"
      by (simp add: upto_rec1)
    with True 1 show ?thesis
      by (subst draw_cols.simps) (simp add: draw_cell_glyph)
  next
    case False
    then show ?thesis
      by (subst draw_cols.simps) simp
  qed
qed

lemma draw_rows_eq:
  "draw_rows s y = concat (map (\<lambda>y. map (\<lambda>x. glyph s x y) [0..width - 1] @ [NL]) [y..height - 1])"
proof (induction s y rule: draw_rows.induct)
  case (1 s y)
  show ?case
  proof (cases "y < height")
    case True
    then have "[y..height - 1] = y # [y + 1..height - 1]"
      by (simp add: upto_rec1)
    with True 1 show ?thesis
      by (subst draw_rows.simps) (simp add: draw_cols_eq)
  next
    case False
    then show ?thesis
      by (subst draw_rows.simps) simp
  qed
qed

lemma snake_glyph_shown:
  "CHR ''O'' \<in> set (draw_board s) \<longleftrightarrow>
     (\<exists>c \<in> set (snake s). \<not> hit_wall c \<and> c \<noteq> fruit s)"
proof -
  have glyph_O: "glyph s x y = CHR ''O'' \<longleftrightarrow>
      \<not> outer_ring x y \<and> (x, y) \<noteq> fruit s \<and> (x, y) \<in> set (snake s)" for x y
    by (simp add: glyph_def)
  have "CHR ''O'' \<in> set (draw_board s) \<longleftrightarrow>
      (\<exists>y \<in> {0..height - 1}. \<exists>x \<in> {0..width - 1}. glyph s x y = CHR ''O'')"
  proof -
    have "CHR ''O'' \<in> set (draw_board s) \<longleftrightarrow>
        (\<exists>y \<in> {0..height - 1}. CHR ''O'' \<in> (\<lambda>x. glyph s x y) ` {0..width - 1})"
      by (simp add: draw_board_def draw_rows_eq clear_screen_def trailer_def ESC_def NL_def)
    also have "\<dots> \<longleftrightarrow>
        (\<exists>y \<in> {0..height - 1}. \<exists>x \<in> {0..width - 1}. glyph s x y = CHR ''O'')"
      by (simp only: image_iff) metis
    finally show ?thesis .
  qed
  also have "\<dots> \<longleftrightarrow> (\<exists>c \<in> set (snake s). \<not> hit_wall c \<and> c \<noteq> fruit s)"
  proof
    assume "\<exists>y \<in> {0..height - 1}. \<exists>x \<in> {0..width - 1}. glyph s x y = CHR ''O''"
    then obtain x y where xy: "0 \<le> x" "x \<le> width - 1" "0 \<le> y" "y \<le> height - 1"
      and g: "glyph s x y = CHR ''O''"
      by auto
    from g have "\<not> outer_ring x y" "(x, y) \<noteq> fruit s" "(x, y) \<in> set (snake s)"
      by (simp_all add: glyph_O)
    moreover from xy \<open>\<not> outer_ring x y\<close> have "\<not> hit_wall (x, y)"
      by (auto simp: outer_ring_def hit_wall_def)
    ultimately show "\<exists>c \<in> set (snake s). \<not> hit_wall c \<and> c \<noteq> fruit s"
      by blast
  next
    assume "\<exists>c \<in> set (snake s). \<not> hit_wall c \<and> c \<noteq> fruit s"
    then obtain x y where c: "(x, y) \<in> set (snake s)" "\<not> hit_wall (x, y)" "(x, y) \<noteq> fruit s"
      by auto
    from c(2) have "y \<in> {0..height - 1}" "x \<in> {0..width - 1}" "\<not> outer_ring x y"
      by (auto simp: outer_ring_def hit_wall_def)
    moreover from c \<open>\<not> outer_ring x y\<close> have "glyph s x y = CHR ''O''"
      by (simp add: glyph_O)
    ultimately show "\<exists>y \<in> {0..height - 1}. \<exists>x \<in> {0..width - 1}. glyph s x y = CHR ''O''"
      by blast
  qed
  finally show ?thesis .
qed

text \<open>
  Claim C9. The frame drawn holds, for the cells \<open>(x, y)\<close> in row-major order (\<open>y\<close> outer,
  \<open>x\<close> inner), exactly one glyph each, chosen by the precedence of \<open>glyph\<close>: the wall
  glyph on the outer ring, else the fruit glyph at the fruit position, else the snake
  glyph at any snake position, else the empty glyph; each row ends with a newline, and
  the fixed line \<open>Use arrow keys to move. Ctrl+C to quit.\<close>, newline-terminated, follows
  the grid. (The program writes the clear-screen sequence \<open>ESC [ H ESC [ 2 J\<close> before each
  frame.)
\<close>

theorem draw_board_frame:
  "draw_board s =
     CHR 0x1B # ''[H'' @ CHR 0x1B # ''[2J''
     @ concat (map (\<lambda>y. map (\<lambda>x. glyph s x y) [0..width - 1] @ [CHR 0x0A]) [0..height - 1])
     @ ''Use arrow keys to move. Ctrl+C to quit.'' @ [CHR 0x0A]"
  by (simp add: draw_board_def draw_rows_eq clear_screen_def trailer_def ESC_def NL_def)

subsection \<open>Leaving the loop\<close>

lemma game_loop_append:
  assumes "game_loop rnd ps s0 out0 = Some (s, out)" and "\<not> gameOver s"
  shows "game_loop rnd (ps @ qs) s0 out0 = game_loop rnd qs s out"
  using assms
proof (induction ps arbitrary: s0 out0)
  case Nil
  then show ?case by simp
next
  case (Cons p ps)
  show ?case
  proof (cases "gameOver s0")
    case True
    with Cons.prems show ?thesis by simp
  next
    case False
    with Cons.prems obtain s1 where t: "tick rnd p s0 = Some s1"
      and rest: "game_loop rnd ps s1 (out0 @ draw_board s0) = Some (s, out)"
      by (auto split: option.splits)
    from Cons.IH [OF rest Cons.prems(2)] False t show ?thesis
      by simp
  qed
qed

lemma no_G_in_board: "CHR ''G'' \<notin> set (draw_board s)"
  by (auto simp: draw_board_def draw_rows_eq clear_screen_def trailer_def glyph_def
        ESC_def NL_def)

lemma game_loop_no_G:
  assumes "game_loop rnd ps s0 out0 = Some (s, out)" and "CHR ''G'' \<notin> set out0"
  shows "CHR ''G'' \<notin> set out"
  using assms
proof (induction ps arbitrary: s0 out0)
  case Nil
  then show ?case by simp
next
  case (Cons p ps)
  show ?case
  proof (cases "gameOver s0")
    case True
    with Cons.prems show ?thesis by simp
  next
    case False
    with Cons.prems obtain s1 where
      rest: "game_loop rnd ps s1 (out0 @ draw_board s0) = Some (s, out)"
      by (auto split: option.splits)
    from Cons.prems(2) have "CHR ''G'' \<notin> set (out0 @ draw_board s0)"
      by (simp add: no_G_in_board)
    with rest show ?thesis
      by (rule Cons.IH)
  qed
qed

lemma message_once:
  assumes "CHR ''G'' \<notin> set txt"
  shows "occurs_at game_over_message (txt @ game_over_message) k \<longleftrightarrow> k = length txt"
proof
  assume occ: "occurs_at game_over_message (txt @ game_over_message) k"
  then have le: "k \<le> length txt"
    by (simp add: occurs_at_def)
  have "\<not> k < length txt"
  proof
    assume lt: "k < length txt"
    then have "drop k (txt @ game_over_message) = txt ! k # drop (Suc k) txt @ game_over_message"
      by (simp add: Cons_nth_drop_Suc)
    with occ have "txt ! k = CHR ''G''"
      by (simp add: occurs_at_def game_over_message_def)
    with lt assms show False
      by (metis nth_mem)
  qed
  with le show "k = length txt"
    by simp
next
  assume "k = length txt"
  then show "occurs_at game_over_message (txt @ game_over_message) k"
    by (simp add: occurs_at_def)
qed

text \<open>
  Claim C2, amended. If \<open>gameOver\<close> becomes true during a tick, the loop exits right
  after that tick, whatever keys would follow. The last frame written is the one drawn
  at the top of that tick: it shows the state before the fatal move, glyph by glyph, and
  the state after the collision is never drawn. After the loop the message
  \<open>Game Over!\<close> is written, at exactly one place of the output, and the program
  returns 0.
\<close>

theorem game_over_exit:
  assumes "game_loop rnd ps (initial rnd) [] = Some (s, out)" and "\<not> gameOver s"
    and "tick rnd p s = Some s'" and "gameOver s'"
  shows "game_loop rnd (ps @ p # qs) (initial rnd) [] = Some (s', out @ draw_board s)
     \<and> draw_board s =
          CHR 0x1B # ''[H'' @ CHR 0x1B # ''[2J''
          @ concat (map (\<lambda>y. map (\<lambda>x. glyph s x y) [0..width - 1] @ [CHR 0x0A])
                     [0..height - 1])
          @ ''Use arrow keys to move. Ctrl+C to quit.'' @ [CHR 0x0A]
     \<and> main rnd (ps @ p # qs) = Some (out @ draw_board s @ ''Game Over!'' @ [CHR 0x0A], 0)
     \<and> (\<forall>k. occurs_at (''Game Over!'' @ [CHR 0x0A])
                (out @ draw_board s @ ''Game Over!'' @ [CHR 0x0A]) k
              \<longleftrightarrow> k = length (out @ draw_board s))"
proof -
  have "game_loop rnd (ps @ p # qs) (initial rnd) [] = game_loop rnd (p # qs) s out"
    using assms(1,2) by (rule game_loop_append)
  also have "\<dots> = game_loop rnd qs s' (out @ draw_board s)"
    using assms(2,3) by simp
  also have "\<dots> = Some (s', out @ draw_board s)"
    using assms(4) by (cases qs) simp_all
  finally have run: "game_loop rnd (ps @ p # qs) (initial rnd) [] = Some (s', out @ draw_board s)" .
  have msg: "game_over_message = ''Game Over!'' @ [CHR 0x0A]"
    by (simp add: game_over_message_def NL_def)
  from run have prog:
    "main rnd (ps @ p # qs) = Some (out @ draw_board s @ ''Game Over!'' @ [CHR 0x0A], 0)"
    using assms(4) by (simp add: main_def msg)
  have shown: "draw_board s =
          CHR 0x1B # ''[H'' @ CHR 0x1B # ''[2J''
          @ concat (map (\<lambda>y. map (\<lambda>x. glyph s x y) [0..width - 1] @ [CHR 0x0A])
                     [0..height - 1])
          @ ''Use arrow keys to move. Ctrl+C to quit.'' @ [CHR 0x0A]"
    by (simp add: draw_board_def draw_rows_eq clear_screen_def trailer_def ESC_def NL_def)
  have "CHR ''G'' \<notin> set out"
    using assms(1) by (rule game_loop_no_G) simp
  then have "CHR ''G'' \<notin> set (out @ draw_board s)"
    by (simp add: no_G_in_board)
  from message_once [OF this]
  have once: "\<forall>k. occurs_at (''Game Over!'' @ [CHR 0x0A])
                (out @ draw_board s @ ''Game Over!'' @ [CHR 0x0A]) k
              \<longleftrightarrow> k = length (out @ draw_board s)"
    unfolding msg by simp
  from run shown prog once show ?thesis
    by blast
qed

theorem game_over_exit_witness:
  "game_loop rnd_fruit_corner
       [no_key, no_key, no_key, no_key, no_key, no_key, no_key, no_key]
       (initial rnd_fruit_corner) []
     = Some (at_right_wall, frames_to_wall)
   \<and> \<not> gameOver at_right_wall
   \<and> tick rnd_fruit_corner no_key at_right_wall = Some in_right_wall
   \<and> gameOver in_right_wall
   \<and> game_loop rnd_fruit_corner
       ([no_key, no_key, no_key, no_key, no_key, no_key, no_key, no_key]
        @ no_key # [arrow_key CHR ''A'', no_key])
       (initial rnd_fruit_corner) []
     = Some (in_right_wall, frames_to_wall @ draw_board at_right_wall)
   \<and> main rnd_fruit_corner
       ([no_key, no_key, no_key, no_key, no_key, no_key, no_key, no_key]
        @ no_key # [arrow_key CHR ''A'', no_key])
     = Some (frames_to_wall @ draw_board at_right_wall @ ''Game Over!'' @ [CHR 0x0A], 0)"
proof -
  have run: "game_loop rnd_fruit_corner
       [no_key, no_key, no_key, no_key, no_key, no_key, no_key, no_key]
       (initial rnd_fruit_corner) []
     = Some (at_right_wall, frames_to_wall)"
    by (simp add: tick_def Let_def hit_self_eq model_defs rnd_fruit_corner_def
          at_right_wall_def in_right_wall_def frames_to_wall_def at_column_def)
  have alive: "\<not> gameOver at_right_wall"
    by (simp add: at_right_wall_def)
  have ne: "snake at_right_wall \<noteq> []"
    by (simp add: at_right_wall_def)
  have t: "tick rnd_fruit_corner no_key at_right_wall = Some in_right_wall"
    by (simp add: tick_Some [OF ne])
       (simp add: model_defs rnd_fruit_corner_def at_right_wall_def in_right_wall_def)
  have over: "gameOver in_right_wall"
    by (simp add: in_right_wall_def)
  from game_over_exit [OF run alive t over, of "[arrow_key CHR ''A'', no_key]"]
  have "game_loop rnd_fruit_corner
       ([no_key, no_key, no_key, no_key, no_key, no_key, no_key, no_key]
        @ no_key # [arrow_key CHR ''A'', no_key])
       (initial rnd_fruit_corner) []
     = Some (in_right_wall, frames_to_wall @ draw_board at_right_wall)"
    and "main rnd_fruit_corner
       ([no_key, no_key, no_key, no_key, no_key, no_key, no_key, no_key]
        @ no_key # [arrow_key CHR ''A'', no_key])
     = Some (frames_to_wall @ draw_board at_right_wall @ ''Game Over!'' @ [CHR 0x0A], 0)"
    by blast+
  with run alive t over show ?thesis
    by blast
qed

text \<open>
  The claim as written fails at the right wall: the last frame written, drawn at the top
  of the fatal tick, shows the snake at \<open>(18,10)\<close>, still inside the ring; the frame of
  the state after the collision, which holds no snake glyph at all, is a different one
  and is not what the loop wrote last.
\<close>

theorem game_over_exit_counterexample:
  "main rnd_fruit_corner
       [no_key, no_key, no_key, no_key, no_key, no_key, no_key, no_key, no_key]
     = Some (frames_to_wall @ draw_board at_right_wall @ ''Game Over!'' @ [CHR 0x0A], 0)
   \<and> tick rnd_fruit_corner no_key at_right_wall = Some in_right_wall
   \<and> gameOver in_right_wall
   \<and> CHR ''O'' \<in> set (draw_board at_right_wall)
   \<and> CHR ''O'' \<notin> set (draw_board in_right_wall)
   \<and> draw_board at_right_wall \<noteq> draw_board in_right_wall"
proof -
  have run: "game_loop rnd_fruit_corner
       [no_key, no_key, no_key, no_key, no_key, no_key, no_key, no_key, no_key]
       (initial rnd_fruit_corner) []
     = Some (in_right_wall, frames_to_wall @ draw_board at_right_wall)"
    by (simp add: tick_def Let_def hit_self_eq model_defs rnd_fruit_corner_def
          at_right_wall_def in_right_wall_def frames_to_wall_def at_column_def)
  have over: "gameOver in_right_wall"
    by (simp add: in_right_wall_def)
  from run over have prog: "main rnd_fruit_corner
       [no_key, no_key, no_key, no_key, no_key, no_key, no_key, no_key, no_key]
     = Some (frames_to_wall @ draw_board at_right_wall @ ''Game Over!'' @ [CHR 0x0A], 0)"
    by (simp add: main_def game_over_message_def NL_def)
  have ne: "snake at_right_wall \<noteq> []"
    by (simp add: at_right_wall_def)
  have t: "tick rnd_fruit_corner no_key at_right_wall = Some in_right_wall"
    by (simp add: tick_Some [OF ne])
       (simp add: model_defs rnd_fruit_corner_def at_right_wall_def in_right_wall_def)
  have before: "CHR ''O'' \<in> set (draw_board at_right_wall)"
    by (simp add: snake_glyph_shown) (simp add: at_right_wall_def hit_wall_def width_def height_def)
  have after: "CHR ''O'' \<notin> set (draw_board in_right_wall)"
    by (simp add: snake_glyph_shown) (simp add: in_right_wall_def hit_wall_def width_def height_def)
  from before after have "draw_board at_right_wall \<noteq> draw_board in_right_wall"
    by metis
  with prog t over before after show ?thesis
    by blast
qed

end
